theory Spec2Isabelle
  imports Complex_Main "HOL-Library.Sublist" "HOL-Library.AList"
begin

section \<open>Characters and the string methods the analyzer relies on\<close>

text \<open>
  A Python \<open>str\<close> is a sequence of code points. Here a text is a \<open>string\<close> whose
  \<open>char\<close>s stand for the code points U+0000 to U+00FF, one \<open>char\<close> per Python
  character, so that \<open>length\<close> is Python's \<open>len\<close>. The character classes below are
  those of Python 3 on that range.
\<close>

definition isspace :: "char \<Rightarrow> bool" where
  \<comment> \<open>\<open>str.isspace\<close>, which is also what \<open>str.strip()\<close>, \<open>str.split()\<close> and the
      regular expression \<open>\s\<close> use.\<close>
  "isspace c = (let n = (of_char c :: nat) in (9 \<le> n \<and> n \<le> 13) \<or> (28 \<le> n \<and> n \<le> 32) \<or> n = 133 \<or> n = 160)"

definition isdigit :: "char \<Rightarrow> bool" where
  \<comment> \<open>the regular expression \<open>\d\<close>\<close>
  "isdigit c = (let n = (of_char c :: nat) in 48 \<le> n \<and> n \<le> 57)"

definition isword :: "char \<Rightarrow> bool" where
  \<comment> \<open>the regular expression \<open>\w\<close>: alphanumeric characters and the underscore\<close>
  "isword c = (let n = (of_char c :: nat) in
     (48 \<le> n \<and> n \<le> 57) \<or> (65 \<le> n \<and> n \<le> 90) \<or> n = 95 \<or> (97 \<le> n \<and> n \<le> 122) \<or>
     n = 170 \<or> n = 178 \<or> n = 179 \<or> n = 181 \<or> n = 185 \<or> n = 186 \<or> (188 \<le> n \<and> n \<le> 190) \<or>
     (192 \<le> n \<and> n \<le> 214) \<or> (216 \<le> n \<and> n \<le> 246) \<or> 248 \<le> n)"

definition lower_char :: "char \<Rightarrow> char" where
  "lower_char c = (let n = (of_char c :: nat) in
     if (65 \<le> n \<and> n \<le> 90) \<or> (192 \<le> n \<and> n \<le> 222 \<and> n \<noteq> 215) then char_of (n + 32) else c)"

definition upper_char :: "char \<Rightarrow> char" where
  \<comment> \<open>the upper-case partner where it is a single character of the range\<close>
  "upper_char c = (let n = (of_char c :: nat) in
     if (97 \<le> n \<and> n \<le> 122) \<or> (224 \<le> n \<and> n \<le> 254 \<and> n \<noteq> 247) then char_of (n - 32) else c)"

definition lower :: "string \<Rightarrow> string" where
  \<comment> \<open>\<open>str.lower()\<close>\<close>
  "lower s = map lower_char s"

definition strip :: "string \<Rightarrow> string" where
  \<comment> \<open>\<open>str.strip()\<close>\<close>
  "strip s = rev (dropWhile isspace (rev (dropWhile isspace s)))"

fun split_ws_acc :: "string \<Rightarrow> string \<Rightarrow> string list" where
  "split_ws_acc cur [] = (if cur = [] then [] else [rev cur])"
| "split_ws_acc cur (c # cs) =
     (if isspace c then (if cur = [] then split_ws_acc [] cs else rev cur # split_ws_acc [] cs)
      else split_ws_acc (c # cur) cs)"

definition split_ws :: "string \<Rightarrow> string list" where
  \<comment> \<open>\<open>str.split()\<close> without a separator: the maximal runs of non-space characters\<close>
  "split_ws s = split_ws_acc [] s"

fun split_on :: "char \<Rightarrow> string \<Rightarrow> string list" where
  \<comment> \<open>\<open>str.split(sep)\<close> for a one-character separator; never the empty list\<close>
  "split_on sep [] = [[]]"
| "split_on sep (c # cs) =
     (if c = sep then [] # split_on sep cs
      else (case split_on sep cs of [] \<Rightarrow> [[c]] | p # ps \<Rightarrow> (c # p) # ps))"

fun join :: "string \<Rightarrow> string list \<Rightarrow> string" where
  \<comment> \<open>\<open>sep.join(parts)\<close>\<close>
  "join sep [] = []"
| "join sep [x] = x"
| "join sep (x # y # ys) = x @ sep @ join sep (y # ys)"

definition slice :: "'a list \<Rightarrow> nat \<Rightarrow> nat \<Rightarrow> 'a list" where
  \<comment> \<open>\<open>xs[a:b]\<close> for \<open>0 \<le> a\<close> and \<open>0 \<le> b\<close>; Python clamps both bounds to the length\<close>
  "slice xs a b = take (b - a) (drop a xs)"

definition slice_to :: "'a list \<Rightarrow> int \<Rightarrow> 'a list" where
  \<comment> \<open>\<open>xs[:k]\<close> for any integer \<open>k\<close>: a negative bound counts from the end\<close>
  "slice_to xs k = (if k < 0 then take (nat (int (length xs) + k)) xs else take (nat k) xs)"

definition contains :: "string \<Rightarrow> string \<Rightarrow> bool" where
  \<comment> \<open>\<open>needle in haystack\<close>\<close>
  "contains needle haystack = sublist needle haystack"

section \<open>Regular expressions: the part of Python's \<open>re\<close> the patterns use\<close>

text \<open>
  Python's matcher backtracks: alternatives are tried left to right and a greedy repetition
  tries the longest run first. A regular expression is therefore given the list of all the
  ways it can match from a position, in the order the matcher would try them; the match
  \<open>re\<close> reports is the head of that list. Unbounded repetition is only ever applied to a
  single character class in the patterns of this program (\<open>\s*\<close>, \<open>\d+\<close>, \<open>[.\d]*\<close>,
  \<open>[^"]+\<close>, \<open>[.!?]+\<close>), which is what \<open>Many\<close> provides.
\<close>

datatype cclass = In "char \<Rightarrow> bool" | NotIn "char \<Rightarrow> bool"

datatype regex =
    Eps
  | Lit char
  | Cls cclass
  | Seq regex regex
  | Alt regex regex
  | Many cclass
  | Grp nat regex
  | Bos
  | Eos
  | Wb

text \<open>
  A matcher state is the position reached and the spans of the capturing groups closed so
  far, the group closed last at the head.
\<close>

type_synonym caps = "(nat \<times> nat \<times> nat) list"

type_synonym mstate = "nat \<times> caps"

definition lit_ok :: "bool \<Rightarrow> char \<Rightarrow> char \<Rightarrow> bool" where
  \<comment> \<open>a literal pattern character against a text character; \<open>ic\<close> is \<open>re.IGNORECASE\<close>\<close>
  "lit_ok ic a c = (if ic then lower_char a = lower_char c else a = c)"

fun cls_ok :: "bool \<Rightarrow> cclass \<Rightarrow> char \<Rightarrow> bool" where
  \<comment> \<open>a character class \<open>[...]\<close> or \<open>[^...]\<close> against a text character; under
      \<open>re.IGNORECASE\<close> the case partners of the character are looked up as well\<close>
  "cls_ok ic (In p) c = (p c \<or> (ic \<and> (p (lower_char c) \<or> p (upper_char c))))"
| "cls_ok ic (NotIn p) c = (\<not> (p c \<or> (ic \<and> (p (lower_char c) \<or> p (upper_char c)))))"

definition at_boundary :: "string \<Rightarrow> nat \<Rightarrow> bool" where
  \<comment> \<open>\<open>\b\<close>: exactly one of the characters before and at the position is a word character\<close>
  "at_boundary w i =
     ((0 < i \<and> i \<le> length w \<and> isword (w ! (i - 1))) \<noteq> (i < length w \<and> isword (w ! i)))"

fun ms :: "bool \<Rightarrow> string \<Rightarrow> regex \<Rightarrow> mstate \<Rightarrow> mstate list" where
  "ms ic w Eps s = [s]"
| "ms ic w (Lit a) s =
     (if fst s < length w \<and> lit_ok ic a (w ! fst s) then [(Suc (fst s), snd s)] else [])"
| "ms ic w (Cls p) s =
     (if fst s < length w \<and> cls_ok ic p (w ! fst s) then [(Suc (fst s), snd s)] else [])"
| "ms ic w (Seq r1 r2) s = concat (map (ms ic w r2) (ms ic w r1 s))"
| "ms ic w (Alt r1 r2) s = ms ic w r1 s @ ms ic w r2 s"
| "ms ic w (Many p) s =
     map (\<lambda>n. (fst s + n, snd s))
       (rev [0 ..< Suc (length (takeWhile (cls_ok ic p) (drop (fst s) w)))])"
| "ms ic w (Grp g r) s =
     map (\<lambda>t. (fst t, (g, fst s, fst t) # filter (\<lambda>e. fst e \<noteq> g) (snd t))) (ms ic w r s)"
| "ms ic w Bos s = (if fst s = 0 then [s] else [])"
| "ms ic w Eos s =
     (if fst s = length w \<or> (Suc (fst s) = length w \<and> w ! fst s = CHR 0x0A) then [s] else [])"
| "ms ic w Wb s = (if at_boundary w (fst s) then [s] else [])"

declare ms.simps [simp del]

record match =
  m_start :: nat
  m_end :: nat
  m_caps :: caps
  m_string :: string

definition m_group0 :: "match \<Rightarrow> string" where
  \<comment> \<open>\<open>m.group()\<close>\<close>
  "m_group0 m = slice (m_string m) (m_start m) (m_end m)"

definition m_group :: "match \<Rightarrow> nat \<Rightarrow> string option" where
  \<comment> \<open>\<open>m.group(g)\<close> for \<open>g \<ge> 1\<close>; \<open>None\<close> when the group took no part in the match\<close>
  "m_group m g = map_option (\<lambda>(a, b). slice (m_string m) a b) (map_of (m_caps m) g)"

definition lastindex :: "match \<Rightarrow> nat option" where
  \<comment> \<open>\<open>m.lastindex\<close>: the index of the group that was closed last, \<open>None\<close> if no
      group took part in the match\<close>
  "lastindex m = (case m_caps m of [] \<Rightarrow> None | e # _ \<Rightarrow> Some (fst e))"

definition match_at :: "bool \<Rightarrow> regex \<Rightarrow> string \<Rightarrow> nat \<Rightarrow> bool \<Rightarrow> match option" where
  \<comment> \<open>the match starting at position \<open>i\<close>, if any; with \<open>adv\<close> an empty match is refused\<close>
  "match_at ic r w i adv =
     (case filter (\<lambda>t. if adv then i < fst t else True) (ms ic w r (i, [])) of
        [] \<Rightarrow> None
      | t # _ \<Rightarrow> Some \<lparr>m_start = i, m_end = fst t, m_caps = snd t, m_string = w\<rparr>)"

function scan :: "(nat \<Rightarrow> bool \<Rightarrow> match option) \<Rightarrow> nat \<Rightarrow> nat \<Rightarrow> bool \<Rightarrow> match list" where
  "scan m n pos adv =
     (if n < pos then []
      else (case m pos adv of
              \<comment> \<open>\<open>adv\<close> is set after an empty match, and then no empty match is returned\<close>
              None \<Rightarrow> scan m n (Suc pos) False
            | Some x \<Rightarrow>
                if m_end x \<le> pos then (if adv then [] else x # scan m n pos True)
                else x # scan m n (m_end x) False))"
  by pat_completeness auto
termination
  by (relation "measure (\<lambda>(m, n, pos, adv). 2 * (Suc n - pos) + (if adv then 0 else 1))") auto

declare scan.simps [simp del]

definition re_finditer :: "bool \<Rightarrow> regex \<Rightarrow> string \<Rightarrow> match list" where
  \<comment> \<open>\<open>re.finditer\<close>: the leftmost matches, left to right, none overlapping. After an
      empty match the next attempt at the same position must consume something.\<close>
  "re_finditer ic r w = scan (match_at ic r w) (length w) 0 False"

definition re_search :: "bool \<Rightarrow> regex \<Rightarrow> string \<Rightarrow> match option" where
  \<comment> \<open>\<open>re.search\<close>: the match at the leftmost position that has one\<close>
  "re_search ic r w =
     (case List.find (\<lambda>i. match_at ic r w i False \<noteq> None) [0 ..< Suc (length w)] of
        None \<Rightarrow> None
      | Some i \<Rightarrow> match_at ic r w i False)"

fun between :: "string \<Rightarrow> nat \<Rightarrow> match list \<Rightarrow> string list" where
  \<comment> \<open>the pieces of \<open>w\<close> from position \<open>p\<close> that lie between the matches\<close>
  "between w p [] = [drop p w]"
| "between w p (x # xs) = slice w p (m_start x) # between w (m_end x) xs"

definition re_split :: "bool \<Rightarrow> regex \<Rightarrow> string \<Rightarrow> string list" where
  \<comment> \<open>\<open>re.split\<close> for a pattern without capturing groups\<close>
  "re_split ic r w = between w 0 (re_finditer ic r w)"

fun splice :: "(match \<Rightarrow> string) \<Rightarrow> string \<Rightarrow> nat \<Rightarrow> match list \<Rightarrow> string" where
  "splice f w p [] = drop p w"
| "splice f w p (x # xs) = slice w p (m_start x) @ f x @ splice f w (m_end x) xs"

definition re_sub :: "bool \<Rightarrow> regex \<Rightarrow> (match \<Rightarrow> string) \<Rightarrow> string \<Rightarrow> string" where
  \<comment> \<open>\<open>re.sub\<close> with a function as replacement\<close>
  "re_sub ic r f w = splice f w 0 (re_finditer ic r w)"

fun lit :: "string \<Rightarrow> regex" where
  \<comment> \<open>a literal string; also what \<open>re.escape\<close> of a string compiles to\<close>
  "lit [] = Eps"
| "lit (c # cs) = Seq (Lit c) (lit cs)"

fun alts :: "regex list \<Rightarrow> regex" where
  \<comment> \<open>\<open>r1|r2|...|rn\<close>\<close>
  "alts [] = Eps"
| "alts [r] = r"
| "alts (r # rs) = Alt r (alts rs)"

fun seqs :: "regex list \<Rightarrow> regex" where
  "seqs [] = Eps"
| "seqs [r] = r"
| "seqs (r # rs) = Seq r (seqs rs)"

definition Many1 :: "cclass \<Rightarrow> regex" where
  \<comment> \<open>\<open>[...]+\<close>\<close>
  "Many1 p = Seq (Cls p) (Many p)"

definition Opt :: "regex \<Rightarrow> regex" where
  \<comment> \<open>\<open>r?\<close>\<close>
  "Opt r = Alt r Eps"

fun nogroups :: "regex \<Rightarrow> bool" where
  \<comment> \<open>the regular expression has no capturing group\<close>
  "nogroups (Seq r1 r2) = (nogroups r1 \<and> nogroups r2)"
| "nogroups (Alt r1 r2) = (nogroups r1 \<and> nogroups r2)"
| "nogroups (Grp g r) = False"
| "nogroups r = True"


section \<open>\<open>text_analyzer.py\<close>: clauses, definitions, obligations, keyword search\<close>

definition space :: cclass where
  \<comment> \<open>\<open>\s\<close>\<close>
  "space = In isspace"

definition digit :: cclass where
  \<comment> \<open>\<open>\d\<close>\<close>
  "digit = In isdigit"

definition in_range :: "char \<Rightarrow> char \<Rightarrow> char \<Rightarrow> bool" where
  \<comment> \<open>the range \<open>a-b\<close> inside a character class\<close>
  "in_range a b c = ((of_char a :: nat) \<le> of_char c \<and> (of_char c :: nat) \<le> of_char b)"

definition line_start :: regex where
  \<comment> \<open>\<open>(?:^|\n)\<close>\<close>
  "line_start = Alt Bos (Lit (CHR 0x0A))"

text \<open>
  \<open>clause_patterns\<close>, in the order of the source:
  \<^item> \<^verbatim>\<open>(?:^|\n)\s*(?:CLAUSE|Article|Section|Paragraph)\s+(\d+[.\d]*)[:\s]\<close>
  \<^item> \<^verbatim>\<open>(?:^|\n)\s*(\d+)\.\s+[A-Z]\<close>
\<close>

definition clause_patterns :: "regex list" where
  "clause_patterns =
     [ seqs [line_start, Many space,
             alts [lit ''CLAUSE'', lit ''Article'', lit ''Section'', lit ''Paragraph''],
             Many1 space,
             Grp 1 (Seq (Many1 digit) (Many (In (\<lambda>c. c = CHR ''.'' \<or> isdigit c)))),
             Cls (In (\<lambda>c. c = CHR '':'' \<or> isspace c))],
       seqs [line_start, Many space, Grp 1 (Many1 digit), Lit (CHR ''.''), Many1 space,
             Cls (In (in_range (CHR ''A'') (CHR ''Z'')))] ]"

text \<open>
  \<open>definition_patterns\<close>:
  \<^item> \<^verbatim>\<open>"([^"]+)"\s+(?:means|shall mean|refers to|is defined as)\<close>
  \<^item> \<^verbatim>\<open>(?:^|\n)\s*DEFINITIONS?\s*(?::|$)\<close>
\<close>

definition definition_patterns :: "regex list" where
  "definition_patterns =
     [ seqs [Lit (CHR 0x22), Grp 1 (Many1 (NotIn (\<lambda>c. c = CHR 0x22))), Lit (CHR 0x22),
             Many1 space,
             alts [lit ''means'', lit ''shall mean'', lit ''refers to'', lit ''is defined as'']],
       seqs [line_start, Many space, lit ''DEFINITION'', Opt (Lit (CHR ''S'')), Many space,
             Alt (Lit (CHR '':'')) Eos] ]"

text \<open>
  \<open>obligation_patterns\<close>:
  \<^item> \<^verbatim>\<open>\b(?:shall|must|will|is required to|is obligated to|agrees to)\b\<close>
  \<^item> \<^verbatim>\<open>\b(?:responsibilities?|obligations?|duties)\b\<close>
\<close>

definition obligation_patterns :: "regex list" where
  "obligation_patterns =
     [ seqs [Wb,
             alts [lit ''shall'', lit ''must'', lit ''will'', lit ''is required to'',
                   lit ''is obligated to'', lit ''agrees to''],
             Wb],
       seqs [Wb,
             alts [Seq (lit ''responsibilitie'') (Opt (Lit (CHR ''s''))),
                   Seq (lit ''obligation'') (Opt (Lit (CHR ''s''))),
                   lit ''duties''],
             Wb] ]"

definition sentence_end :: regex where
  \<comment> \<open>\<open>[.!?]+\<close>\<close>
  "sentence_end = Many1 (In (\<lambda>c. c = CHR ''.'' \<or> c = CHR ''!'' \<or> c = CHR ''?''))"

fun str_nat :: "nat \<Rightarrow> string" where
  \<comment> \<open>\<open>str(n)\<close> for a non-negative integer\<close>
  "str_nat n =
     (if n < 10 then [char_of (48 + n)] else str_nat (n div 10) @ [char_of (48 + n mod 10)])"

declare str_nat.simps [simp del]

definition ellipsis200 :: "string \<Rightarrow> string" where
  \<comment> \<open>\<open>s[:200] + '...' if len(s) > 200 else s\<close>\<close>
  "ellipsis200 s = (if length s > 200 then take 200 s @ ''...'' else s)"

text \<open>
  A clause is the dictionary \<open>{'number': ..., 'text': ...}\<close>. \<open>m.group(1)\<close> is a string, or
  \<open>None\<close> when group 1 took no part in the match, hence the option.
\<close>

record clause =
  clause_number :: "string option"
  clause_text :: string

definition make_clause :: "string list \<Rightarrow> nat \<Rightarrow> clause list \<Rightarrow> match \<Rightarrow> clause" where
  \<comment> \<open>the dictionary appended for a match \<open>m\<close> found on line \<open>i\<close>, with the clauses found
      so far\<close>
  "make_clause lines i clauses m =
     (let context_lines = slice lines i (min (i + 5) (length lines));
          context = strip (join '' '' context_lines)
      in \<lparr>clause_number =
             (if lastindex m \<noteq> None then m_group m 1
              else Some (str_nat (length clauses + 1))),
           clause_text = ellipsis200 context\<rparr>)"

fun clause_pattern_loop ::
  "string list \<Rightarrow> nat \<Rightarrow> string \<Rightarrow> regex list \<Rightarrow> clause list \<Rightarrow> clause list" where
  \<comment> \<open>the inner loop \<open>for pattern in self.clause_patterns\<close>, left by \<open>break\<close> at the first match\<close>
  "clause_pattern_loop lines i line [] clauses = clauses"
| "clause_pattern_loop lines i line (pattern # rest) clauses =
     (case re_search True pattern line of
        Some m \<Rightarrow> clauses @ [make_clause lines i clauses m]
      | None \<Rightarrow> clause_pattern_loop lines i line rest clauses)"

definition extract_clauses :: "string \<Rightarrow> clause list" where
  "extract_clauses text =
     (let lines = split_on (CHR 0x0A) text
      in foldl (\<lambda>clauses (i, line). clause_pattern_loop lines i line clause_patterns clauses)
           [] (enumerate 0 lines))"

record definition_entry =
  def_term :: "string option"
  def_definition :: string

definition extract_definitions :: "string \<Rightarrow> definition_entry list" where
  "extract_definitions text =
     (let definitions =
            map (\<lambda>m.
                  (let start = nat (max 0 (int (m_start m) - 50));
                       end = min (length text) (m_end m + 150);
                       context = strip (slice text start end)
                   in \<lparr>def_term = m_group m 1, def_definition = context\<rparr>))
              (re_finditer True (definition_patterns ! 0) text)
      in take 20 definitions)"

fun obligation_pattern_loop :: "string \<Rightarrow> regex list \<Rightarrow> string list \<Rightarrow> string list" where
  \<comment> \<open>the inner loop \<open>for pattern in self.obligation_patterns\<close>, left by \<open>break\<close> at the first
      pattern found in the sentence, whether or not the sentence is long enough to keep\<close>
  "obligation_pattern_loop sentence [] obligations = obligations"
| "obligation_pattern_loop sentence (pattern # rest) obligations =
     (if re_search True pattern sentence \<noteq> None
      then (if length sentence > 20 then obligations @ [ellipsis200 sentence] else obligations)
      else obligation_pattern_loop sentence rest obligations)"

definition extract_obligations :: "string \<Rightarrow> string list" where
  "extract_obligations text =
     (let sentences = re_split False sentence_end text;
          obligations =
            foldl (\<lambda>obligations sentence0.
                     (let sentence = strip sentence0
                      in if sentence = [] then obligations
                         else obligation_pattern_loop sentence obligation_patterns obligations))
              [] sentences
      in take 15 obligations)"

definition highlight :: "match \<Rightarrow> string" where
  \<comment> \<open>\<open>lambda m: f"**{m.group()}**"\<close>\<close>
  "highlight m = ''**'' @ m_group0 m @ ''**''"

definition keyword_matches :: "string \<Rightarrow> string \<Rightarrow> string list" where
  \<comment> \<open>the list \<open>matches\<close> that the body of \<open>for keyword in keywords\<close> builds\<close>
  "keyword_matches text keyword =
     (let pattern = lit keyword
      in map (\<lambda>m.
               (let start = nat (max 0 (int (m_start m) - 100));
                    end = min (length text) (m_end m + 100);
                    context = strip (slice text start end)
                in re_sub True pattern highlight context))
           (re_finditer True pattern text))"

text \<open>
  The result dictionary keeps its keys in insertion order; assigning to a key that is
  already there replaces its value in place, which is \<open>AList.update\<close>.
\<close>

definition search_keywords :: "string \<Rightarrow> string list \<Rightarrow> (string \<times> string list) list" where
  "search_keywords text keywords =
     foldl (\<lambda>results keyword.
              (let matches = keyword_matches text keyword
               in if matches \<noteq> [] then AList.update keyword (take 10 matches) results
                  else results))
       [] keywords"


section \<open>\<open>summarizer.py\<close>\<close>

definition max_summary_sentences :: int where
  "max_summary_sentences = 10"

definition split_sentences :: "string \<Rightarrow> string list" where
  \<comment> \<open>\<open>_split_sentences\<close>\<close>
  "split_sentences text =
     (let sentences = re_split False sentence_end text
      in map strip (filter (\<lambda>s. strip s \<noteq> [] \<and> length (strip s) > 20) sentences))"

definition important_keywords :: "string list" where
  "important_keywords =
     [''shall'', ''must'', ''agreement'', ''party'', ''parties'', ''obligation'',
      ''rights'', ''liability'', ''warranty'', ''indemnify'', ''breach'',
      ''termination'', ''jurisdiction'', ''dispute'', ''clause'', ''section'',
      ''payment'', ''compensation'', ''damages'', ''force majeure'', ''confidential'']"

definition base_score :: "string list \<Rightarrow> nat \<Rightarrow> string \<Rightarrow> int" where
  \<comment> \<open>the integer \<open>score\<close> of a sentence before the position factor is applied. The test
      \<open>idx < len(sentences) * 0.2\<close> is made in double precision, where it agrees with
      \<open>5 * idx < len(sentences)\<close>.\<close>
  "base_score sentences idx sentence =
     (let sentence_lower = lower sentence;
          score = foldl (\<lambda>score keyword.
                           if contains keyword sentence_lower then score + 2 else score)
                    0 important_keywords;
          score = (if re_search False (Many1 digit) sentence \<noteq> None then score + 1 else score);
          score = (if contains [CHR 0x22] sentence then score + 2 else score);
          score = (if 5 * idx < length sentences then score + 1 else score);
          score = (if length sentence > 500 then score - 1 else score)
      in score)"

text \<open>
  The last step of the scoring, \<open>score *= 1.0 - (idx / len(sentences)) * 0.3\<close>, is a
  double-precision product. It is the parameter \<open>weigh\<close> of the summarizer: a function of
  the integer score, the index and the number of sentences into any linear order. What is
  proved of the summarizer holds for every such function; \<open>exact_weigh\<close> is the product
  without rounding.
\<close>

definition exact_weigh :: "int \<Rightarrow> nat \<Rightarrow> nat \<Rightarrow> rat" where
  "exact_weigh score idx n = of_int score * (1 - (of_nat idx / of_nat n) * (3 / 10))"

definition score_sentences ::
  "(int \<Rightarrow> nat \<Rightarrow> nat \<Rightarrow> 'w) \<Rightarrow> string list \<Rightarrow> string \<Rightarrow> (string \<times> 'w \<times> nat) list" where
  \<comment> \<open>\<open>_score_sentences\<close>: the tuples \<open>(sentence, score, original_index)\<close>\<close>
  "score_sentences weigh sentences full_text =
     map (\<lambda>(idx, sentence).
            (sentence, weigh (base_score sentences idx sentence) idx (length sentences), idx))
       (enumerate 0 sentences)"

definition sort_desc :: "('a \<Rightarrow> 'k::linorder) \<Rightarrow> 'a list \<Rightarrow> 'a list" where
  \<comment> \<open>\<open>list.sort(key=f, reverse=True)\<close>: descending, equal keys keep their order\<close>
  "sort_desc f xs = rev (sort_key f (rev xs))"

definition top_sentences ::
  "(int \<Rightarrow> nat \<Rightarrow> nat \<Rightarrow> 'w::linorder) \<Rightarrow> string \<Rightarrow> int \<Rightarrow> (string \<times> 'w \<times> nat) list" where
  \<comment> \<open>the list \<open>top_sentences\<close> of \<open>summarize\<close> after its second sort\<close>
  "top_sentences weigh text k =
     (let sentences = split_sentences text;
          scored_sentences = sort_desc (\<lambda>x. fst (snd x)) (score_sentences weigh sentences text);
          top = slice_to scored_sentences k
      in sort_key (\<lambda>x. snd (snd x)) top)"

definition summarize ::
  "(int \<Rightarrow> nat \<Rightarrow> nat \<Rightarrow> 'w::linorder) \<Rightarrow> string \<Rightarrow> int option \<Rightarrow> string" where
  "summarize weigh text max_sentences =
     (let k = (case max_sentences of None \<Rightarrow> max_summary_sentences | Some k \<Rightarrow> k)
      in if split_sentences text = [] then ''No content to summarize.''
         else join '' '' (map fst (top_sentences weigh text k)))"

text \<open>
  The key points are formatted strings in the source, two of them starting with a bullet
  that is outside the range of \<open>char\<close>. They are kept here as what each string is
  formatted from.
\<close>

datatype key_point =
    ClauseCount nat
  | DefinitionCount nat
  | Defines "string option"
  | ObligationCount nat
  | ObligationPoint string
  | CriticalSections "string list"

definition critical_terms :: "string list" where
  "critical_terms =
     [''termination'', ''liability'', ''warranty'', ''indemnification'',
      ''dispute resolution'', ''confidentiality'', ''payment terms'']"

definition generate_key_points ::
  "string \<Rightarrow> clause list \<Rightarrow> definition_entry list \<Rightarrow> string list \<Rightarrow> key_point list" where
  "generate_key_points text clauses definitions obligations =
     (if clauses \<noteq> [] then [ClauseCount (length clauses)] else []) @
     (if definitions \<noteq> []
      then DefinitionCount (length definitions) # map (\<lambda>d. Defines (def_term d)) (take 3 definitions)
      else []) @
     (if obligations \<noteq> []
      then ObligationCount (length obligations) #
           map (\<lambda>obl. ObligationPoint (take 150 obl)) (take 3 obligations)
      else []) @
     (let text_lower = lower text;
          found_terms = filter (\<lambda>t. contains t text_lower) critical_terms
      in if found_terms \<noteq> [] then [CriticalSections found_terms] else [])"

section \<open>\<open>document_parser.py\<close>\<close>

text \<open>
  The file system and the decoding libraries are the environment of the parser:
  \<open>os.path.exists\<close>, the page texts PyPDF2 extracts, the paragraph texts python-docx
  reads, and the UTF-8 text of a file. Each reader returns its text or the message of
  the exception it raises.
\<close>

record env =
  path_exists :: "string \<Rightarrow> bool"
  pdf_pages :: "string \<Rightarrow> string + string list"
  docx_paragraphs :: "string \<Rightarrow> string + string list"
  read_utf8 :: "string \<Rightarrow> string + string"

datatype error = FileNotFoundError string | ValueError string | RuntimeError string

fun message :: "error \<Rightarrow> string" where
  \<comment> \<open>\<open>str(e)\<close>\<close>
  "message (FileNotFoundError s) = s"
| "message (ValueError s) = s"
| "message (RuntimeError s) = s"

definition SUPPORTED_FORMATS :: "string list" where
  "SUPPORTED_FORMATS = [''.pdf'', ''.docx'', ''.txt'']"

definition rfind :: "char \<Rightarrow> string \<Rightarrow> int" where
  \<comment> \<open>\<open>s.rfind(c)\<close>: the last index of \<open>c\<close>, or \<open>-1\<close>\<close>
  "rfind c s = (case filter (\<lambda>i. s ! i = c) (rev [0 ..< length s]) of [] \<Rightarrow> - 1 | i # _ \<Rightarrow> int i)"

definition splitext :: "string \<Rightarrow> string \<times> string" where
  \<comment> \<open>\<open>os.path.splitext\<close> of \<open>posixpath\<close>: the extension starts at the last dot of the last
      path component, unless only dots come before it in that component\<close>
  "splitext p =
     (let sepIndex = rfind (CHR ''/'') p;
          dotIndex = rfind (CHR ''.'') p
      in if dotIndex > sepIndex \<and>
            list_ex (\<lambda>i. p ! i \<noteq> CHR ''.'') [nat (sepIndex + 1) ..< nat dotIndex]
         then (take (nat dotIndex) p, drop (nat dotIndex) p)
         else (p, []))"

definition parse_pdf :: "env \<Rightarrow> string \<Rightarrow> error + string" where
  "parse_pdf e file_path =
     (case pdf_pages e file_path of
        Inl cause \<Rightarrow> Inl (RuntimeError (''Error parsing PDF: '' @ cause))
      | Inr pages \<Rightarrow> Inr (join [CHR 0x0A] pages))"

definition parse_docx :: "env \<Rightarrow> string \<Rightarrow> error + string" where
  "parse_docx e file_path =
     (case docx_paragraphs e file_path of
        Inl cause \<Rightarrow> Inl (RuntimeError (''Error parsing DOCX: '' @ cause))
      | Inr paragraphs \<Rightarrow> Inr (join [CHR 0x0A] (filter (\<lambda>p. strip p \<noteq> []) paragraphs)))"

definition parse_txt :: "env \<Rightarrow> string \<Rightarrow> error + string" where
  "parse_txt e file_path =
     (case read_utf8 e file_path of
        Inl cause \<Rightarrow> Inl (RuntimeError (''Error parsing TXT: '' @ cause))
      | Inr content \<Rightarrow> Inr content)"

definition parse :: "env \<Rightarrow> string \<Rightarrow> error + string" where
  \<comment> \<open>\<open>DocumentParser.parse\<close>. The \<open>if\<close>/\<open>elif\<close> chain has no \<open>else\<close>; its three tests cover
      \<open>SUPPORTED_FORMATS\<close>, so the last branch below is never reached.\<close>
  "parse e file_path =
     (if \<not> path_exists e file_path
      then Inl (FileNotFoundError (''File not found: '' @ file_path))
      else
        (let ext = lower (snd (splitext file_path))
         in if ext \<notin> set SUPPORTED_FORMATS
            then Inl (ValueError (''Unsupported file format: '' @ ext @
                                  ''. Supported formats: '' @ join '', '' SUPPORTED_FORMATS))
            else
              (case (if ext = ''.pdf'' then parse_pdf e file_path
                     else if ext = ''.docx'' then parse_docx e file_path
                     else if ext = ''.txt'' then parse_txt e file_path
                     else Inr [])
               of Inl x \<Rightarrow> Inl (RuntimeError (''Error parsing document: '' @ message x))
                | Inr text \<Rightarrow> Inr text)))"

section \<open>\<open>legal_analyzer.py\<close>\<close>

record analysis =
  success :: bool
  file_path :: string
  text_length :: nat
  word_count :: nat
  clauses :: "clause list"
  definitions :: "definition_entry list"
  obligations :: "string list"
  summary :: string
  key_points :: "key_point list"
  full_text :: string

definition analyze_document ::
  "(int \<Rightarrow> nat \<Rightarrow> nat \<Rightarrow> 'w::linorder) \<Rightarrow> env \<Rightarrow> string \<Rightarrow> error + analysis" where
  \<comment> \<open>\<open>ValueError\<close>, \<open>FileNotFoundError\<close> and \<open>RuntimeError\<close> are raised again as they
      are; the extractors and the summarizer raise nothing, so the handler for any other
      exception has no branch here\<close>
  "analyze_document weigh e path =
     (case parse e path of
        Inl x \<Rightarrow> Inl x
      | Inr text \<Rightarrow>
          if text = [] \<or> length (strip text) < 50
          then Inl (ValueError ''Document appears to be empty or too short'')
          else
            (let cs = extract_clauses text;
                 ds = extract_definitions text;
                 os = extract_obligations text;
                 sm = summarize weigh text None;
                 kp = generate_key_points text cs ds os
             in Inr \<lparr>success = True, file_path = path, text_length = length text,
                     word_count = length (split_ws text), clauses = cs, definitions = ds,
                     obligations = os, summary = sm, key_points = kp,
                     full_text = take 1000 text\<rparr>))"

record search_result =
  search_success :: bool
  search_file_path :: string
  search_keywords_given :: "string list"
  search_results :: "(string \<times> string list) list"
  total_matches :: nat

definition search_document :: "env \<Rightarrow> string \<Rightarrow> string list \<Rightarrow> error + search_result" where
  \<comment> \<open>every exception, whatever its kind, is raised again as a \<open>RuntimeError\<close>\<close>
  "search_document e path keywords =
     (case parse e path of
        Inl x \<Rightarrow> Inl (RuntimeError (''Error searching document: '' @ message x))
      | Inr text \<Rightarrow>
          (let results = search_keywords text keywords
           in Inr \<lparr>search_success = True, search_file_path = path,
                   search_keywords_given = keywords, search_results = results,
                   total_matches = sum_list (map (\<lambda>kv. length (snd kv)) results)\<rparr>))"


section \<open>Sample inputs\<close>

definition sample_text :: string where
  "sample_text =
     ''CLAUSE 1: The Receiving Party shall maintain confidentiality of all information.''"


definition sample_clauses :: string where
  "sample_clauses =
     ''Section 12.3: Fees'' @ [CHR 0x0A] @ ''2. Terms apply'' @ [CHR 0x0A] @ ''no marker here''"

definition example_env :: env where
  "example_env =
     \<lparr>path_exists = (\<lambda>p. p \<in> set [''contract.txt'', ''short.txt'', ''empty.txt'', ''notes.xyz'']),
      pdf_pages = (\<lambda>p. Inl ''EOF marker not found''),
      docx_paragraphs = (\<lambda>p. Inl ''Package not found''),
      read_utf8 = (\<lambda>p. if p = ''contract.txt'' then Inr sample_text
                        else if p = ''short.txt'' then Inr ''Short''
                        else Inr [])\<rparr>"


section \<open>A path that does not exist\<close>

text \<open>
  C2. For every path that does not resolve to an existing file, \<open>analyze_document\<close> fails
  with \<open>FileNotFoundError\<close>, the not-found kind, whatever the extension of the path is:
  the parser tests existence before it looks at the extension.
\<close>

theorem analyze_missing_path_not_found:
  "\<not> path_exists e path \<Longrightarrow>
   analyze_document weigh e path = Inl (FileNotFoundError (''File not found: '' @ path))"
  by (simp add: analyze_document_def parse_def)

theorem analyze_missing_path_not_found_witness:
  "\<not> path_exists example_env ''missing.xyz'' \<and>
   analyze_document exact_weigh example_env ''missing.xyz'' =
     Inl (FileNotFoundError ''File not found: missing.xyz'')"
  using analyze_missing_path_not_found [of example_env "''missing.xyz''" exact_weigh]
  by (simp add: example_env_def)

section \<open>The size caps of the extractors\<close>

lemma set_alist_update_subset:
  "set (AList.update k v al) \<subseteq> insert (k, v) (set al)"
  by (induction al) auto

lemma search_keywords_capped_aux:
  "\<forall>kv\<in>set acc. length (snd kv) \<le> 10 \<Longrightarrow>
   \<forall>kv\<in>set (foldl (\<lambda>results keyword.
              (let matches = keyword_matches text keyword
               in if matches \<noteq> [] then AList.update keyword (take 10 matches) results
                  else results)) acc ks). length (snd kv) \<le> 10"
proof (induction ks arbitrary: acc)
  case Nil
  then show ?case by simp
next
  case (Cons k ks)
  have "\<forall>kv\<in>set (AList.update k (take 10 (keyword_matches text k)) acc). length (snd kv) \<le> 10"
    using Cons.prems set_alist_update_subset [of k "take 10 (keyword_matches text k)" acc]
    by auto
  with Cons.prems Cons.IH show ?case
    by (simp add: Let_def)
qed

text \<open>
  C3. Whatever the text, \<open>extract_definitions\<close> returns at most 20 entries,
  \<open>extract_obligations\<close> at most 15 sentences, and every list of snippets in the result of
  \<open>search_keywords\<close> has at most 10 elements. The bounds are on what the extractors
  return, so a caller never sees a longer list.
\<close>

theorem extractor_caps:
  "length (extract_definitions text) \<le> 20 \<and>
   length (extract_obligations text) \<le> 15 \<and>
   (\<forall>kv\<in>set (search_keywords text keywords). length (snd kv) \<le> 10)"
proof (intro conjI)
  show "length (extract_definitions text) \<le> 20"
    by (simp add: extract_definitions_def Let_def)
  show "length (extract_obligations text) \<le> 15"
    by (simp add: extract_obligations_def Let_def)
  show "\<forall>kv\<in>set (search_keywords text keywords). length (snd kv) \<le> 10"
    unfolding search_keywords_def by (rule search_keywords_capped_aux) simp
qed

text \<open>Eleven occurrences of the keyword leave ten snippets.\<close>

theorem extractor_caps_witness:
  "length (extract_definitions ''aaaaaaaaaaa'') \<le> 20 \<and>
   length (extract_obligations ''aaaaaaaaaaa'') \<le> 15 \<and>
   (''a'', replicate 10 ''**a****a****a****a****a****a****a****a****a****a****a**'')
     \<in> set (search_keywords ''aaaaaaaaaaa'' [''a'']) \<and>
   length (replicate 10 ''**a****a****a****a****a****a****a****a****a****a****a**'') \<le> 10"
proof -
  have mem: "(''a'', replicate 10 ''**a****a****a****a****a****a****a****a****a****a****a**'')
     \<in> set (search_keywords ''aaaaaaaaaaa'' [''a''])"
    by code_simp
  from extractor_caps [of "''aaaaaaaaaaa''" "[''a'']"] mem show ?thesis
    by simp
qed

section \<open>The summary of a text without content\<close>

lemma split_sentences_empty:
  "\<forall>s\<in>set (re_split False sentence_end text). length (strip s) \<le> 20 \<Longrightarrow> split_sentences text = []"
  by (auto simp: split_sentences_def Let_def filter_empty_conv)

lemma re_split_Nil: "re_split False sentence_end [] = [[]]"
  by code_simp

text \<open>
  C6. When no piece of the text between runs of \<open>.\<close>, \<open>!\<close>, \<open>?\<close> is longer than 20
  characters once trimmed, no sentence survives and \<open>summarize\<close> returns the string
  \<open>No content to summarize.\<close> exactly, as an ordinary result; the empty text is such a text.
\<close>

theorem summarize_no_content:
  "((\<forall>s\<in>set (re_split False sentence_end text). length (strip s) \<le> 20) \<longrightarrow>
      summarize weigh text k = ''No content to summarize.'') \<and>
   summarize weigh [] k = ''No content to summarize.''"
proof (intro conjI impI)
  assume "\<forall>s\<in>set (re_split False sentence_end text). length (strip s) \<le> 20"
  then have "split_sentences text = []" by (rule split_sentences_empty)
  then show "summarize weigh text k = ''No content to summarize.''"
    by (simp add: summarize_def)
next
  have "split_sentences [] = []"
    by (rule split_sentences_empty) (simp add: re_split_Nil strip_def)
  then show "summarize weigh [] k = ''No content to summarize.''"
    by (simp add: summarize_def)
qed

theorem summarize_no_content_witness:
  "re_split False sentence_end ''Payment is due. Ok!'' = [''Payment is due'', '' Ok'', []] \<and>
   length (strip ''Payment is due'') \<le> 20 \<and> length (strip '' Ok'') \<le> 20 \<and> length (strip []) \<le> 20 \<and>
   summarize exact_weigh ''Payment is due. Ok!'' (Some 3) = ''No content to summarize.''"
proof -
  have sp: "re_split False sentence_end ''Payment is due. Ok!'' = [''Payment is due'', '' Ok'', []]"
    by code_simp
  have ln: "length (strip ''Payment is due'') \<le> 20 \<and> length (strip '' Ok'') \<le> 20 \<and> length (strip []) \<le> 20"
    by code_simp
  from summarize_no_content [of "''Payment is due. Ok!''" exact_weigh "Some 3"] sp ln
  show ?thesis by simp
qed

section \<open>An extension that is not supported\<close>

lemma parse_unsupported:
  "path_exists e path \<Longrightarrow> lower (snd (splitext path)) \<notin> set SUPPORTED_FORMATS \<Longrightarrow>
   parse e path = Inl (ValueError (''Unsupported file format: '' @ lower (snd (splitext path)) @
                                  ''. Supported formats: .pdf, .docx, .txt''))"
  by (simp add: parse_def Let_def) (simp add: SUPPORTED_FORMATS_def)

text \<open>
  C1, as the code has it. For a path that exists and whose extension, lower-cased, is not
  \<open>.pdf\<close>, \<open>.docx\<close> or \<open>.txt\<close>, \<open>analyze_document\<close> fails with the \<open>ValueError\<close> of
  the unsupported format, and \<open>search_document\<close> fails with a \<open>RuntimeError\<close> that wraps
  the message of that error. No reader is consulted: the results are the same whatever the
  three readers \<open>f\<close>, \<open>g\<close>, \<open>h\<close> of the environment would return.
\<close>

theorem unsupported_extension_rejected:
  assumes "path_exists e path"
    and "lower (snd (splitext path)) \<notin> set SUPPORTED_FORMATS"
  shows "analyze_document weigh (e\<lparr>pdf_pages := f, docx_paragraphs := g, read_utf8 := h\<rparr>) path =
           Inl (ValueError (''Unsupported file format: '' @ lower (snd (splitext path)) @
                            ''. Supported formats: .pdf, .docx, .txt'')) \<and>
         search_document (e\<lparr>pdf_pages := f, docx_paragraphs := g, read_utf8 := h\<rparr>) path kws =
           Inl (RuntimeError (''Error searching document: Unsupported file format: '' @
                              lower (snd (splitext path)) @
                              ''. Supported formats: .pdf, .docx, .txt''))"
proof -
  let ?e = "e\<lparr>pdf_pages := f, docx_paragraphs := g, read_utf8 := h\<rparr>"
  have "path_exists ?e path" using assms(1) by simp
  then have "parse ?e path = Inl (ValueError (''Unsupported file format: '' @ lower (snd (splitext path)) @
                                  ''. Supported formats: .pdf, .docx, .txt''))"
    using assms(2) by (rule parse_unsupported)
  then show ?thesis
    by (simp add: analyze_document_def search_document_def)
qed

lemma ext_xyz: "lower (snd (splitext ''notes.xyz'')) = ''.xyz''"
  by code_simp

theorem unsupported_extension_rejected_witness:
  "path_exists example_env ''notes.xyz'' \<and>
   lower (snd (splitext ''notes.xyz'')) \<notin> set SUPPORTED_FORMATS \<and>
   analyze_document exact_weigh
     (example_env\<lparr>pdf_pages := (\<lambda>p. Inr []), docx_paragraphs := (\<lambda>p. Inr []), read_utf8 := (\<lambda>p. Inr sample_text)\<rparr>)
     ''notes.xyz'' =
     Inl (ValueError ''Unsupported file format: .xyz. Supported formats: .pdf, .docx, .txt'') \<and>
   search_document
     (example_env\<lparr>pdf_pages := (\<lambda>p. Inr []), docx_paragraphs := (\<lambda>p. Inr []), read_utf8 := (\<lambda>p. Inr sample_text)\<rparr>)
     ''notes.xyz'' [''party''] =
     Inl (RuntimeError ''Error searching document: Unsupported file format: .xyz. Supported formats: .pdf, .docx, .txt'')"
proof -
  have ex: "path_exists example_env ''notes.xyz''" by (simp add: example_env_def)
  have un: "lower (snd (splitext ''notes.xyz'')) \<notin> set SUPPORTED_FORMATS"
    by (simp add: ext_xyz SUPPORTED_FORMATS_def)
  from unsupported_extension_rejected [OF ex un, where weigh = exact_weigh and f = "\<lambda>p. Inr []"
      and g = "\<lambda>p. Inr []" and h = "\<lambda>p. Inr sample_text" and kws = "[''party'']"]
  show ?thesis using ex un by (simp add: ext_xyz)
qed

text \<open>
  C1 as stated fails twice. \<open>search_document\<close> on an existing file with the extension
  \<open>.xyz\<close> fails with a \<open>RuntimeError\<close>, not with the unsupported-format kind; and
  \<open>analyze_document\<close> on a missing path with that extension fails with
  \<open>FileNotFoundError\<close>.
\<close>

theorem unsupported_extension_counterexample:
  "lower (snd (splitext ''notes.xyz'')) \<notin> set SUPPORTED_FORMATS \<and>
   search_document example_env ''notes.xyz'' [''party''] =
     Inl (RuntimeError ''Error searching document: Unsupported file format: .xyz. Supported formats: .pdf, .docx, .txt'') \<and>
   lower (snd (splitext ''missing.xyz'')) \<notin> set SUPPORTED_FORMATS \<and>
   analyze_document exact_weigh example_env ''missing.xyz'' =
     Inl (FileNotFoundError ''File not found: missing.xyz'')"
  by code_simp

section \<open>Searching a short document\<close>

lemma search_keywords_no_match_aux:
  "\<forall>k\<in>set ks. keyword_matches text k = [] \<Longrightarrow>
   foldl (\<lambda>results keyword.
              (let matches = keyword_matches text keyword
               in if matches \<noteq> [] then AList.update keyword (take 10 matches) results
                  else results)) acc ks = acc"
  by (induction ks arbitrary: acc) (simp_all add: Let_def)

lemma search_keywords_no_match:
  "\<forall>k\<in>set ks. keyword_matches text k = [] \<Longrightarrow> search_keywords text ks = []"
  unfolding search_keywords_def by (rule search_keywords_no_match_aux)

lemma match_at_lit_Nil: "k \<noteq> [] \<Longrightarrow> match_at ic (lit k) [] i adv = None"
  by (cases k) (simp_all add: match_at_def ms.simps)

lemma finditer_lit_Nil: "k \<noteq> [] \<Longrightarrow> re_finditer ic (lit k) [] = []"
  unfolding re_finditer_def
  by (subst scan.simps, simp add: match_at_lit_Nil, subst scan.simps, simp)

lemma keyword_matches_Nil: "k \<noteq> [] \<Longrightarrow> keyword_matches [] k = []"
  by (simp add: keyword_matches_def Let_def finditer_lit_Nil)

lemma strip_length_le: "length (strip s) \<le> length s"
proof -
  have "length (strip s) \<le> length (dropWhile isspace s)"
    unfolding strip_def using length_dropWhile_le [of isspace "rev (dropWhile isspace s)"] by simp
  also have "\<dots> \<le> length s" by (rule length_dropWhile_le)
  finally show ?thesis .
qed

text \<open>
  C10, as the code has it. \<open>search_document\<close> makes no test of the length of the text: for
  an existing file with a supported extension that the parser decodes to \<open>text\<close>, it
  returns a record with \<open>success\<close> set, whose mapping is that of \<open>search_keywords\<close> and
  whose \<open>total_matches\<close> is the sum of the lengths of the snippet lists. The mapping is empty
  and \<open>total_matches\<close> is 0 when no keyword occurs in the text, as when the text is empty
  and no keyword is the empty string. When the trimmed text has fewer than 50 characters,
  \<open>analyze_document\<close> rejects the same file as too short.
\<close>

theorem search_has_no_length_check:
  assumes "path_exists e path"
    and "lower (snd (splitext path)) \<in> set SUPPORTED_FORMATS"
    and "parse e path = Inr text"
  shows "\<exists>r. search_document e path kws = Inr r \<and> search_success r \<and>
             search_results r = search_keywords text kws \<and>
             total_matches r = sum_list (map (\<lambda>kv. length (snd kv)) (search_results r)) \<and>
             ((\<forall>k\<in>set kws. keyword_matches text k = []) \<longrightarrow>
                search_results r = [] \<and> total_matches r = 0) \<and>
             (text = [] \<and> [] \<notin> set kws \<longrightarrow> search_results r = [] \<and> total_matches r = 0) \<and>
             (length (strip text) < 50 \<longrightarrow>
                analyze_document weigh e path =
                  Inl (ValueError ''Document appears to be empty or too short''))"
proof -
  let ?r = "\<lparr>search_success = True, search_file_path = path, search_keywords_given = kws,
             search_results = search_keywords text kws,
             total_matches = sum_list (map (\<lambda>kv. length (snd kv)) (search_keywords text kws))\<rparr>"
  have run: "search_document e path kws = Inr ?r"
    using assms(3) by (simp add: search_document_def Let_def)
  have none: "(\<forall>k\<in>set kws. keyword_matches text k = []) \<longrightarrow>
                search_results ?r = [] \<and> total_matches ?r = 0"
    by (simp add: search_keywords_no_match)
  have empty: "text = [] \<and> [] \<notin> set kws \<longrightarrow> search_results ?r = [] \<and> total_matches ?r = 0"
  proof
    assume h: "text = [] \<and> [] \<notin> set kws"
    then have "\<forall>k\<in>set kws. keyword_matches text k = []"
      by (metis keyword_matches_Nil)
    then show "search_results ?r = [] \<and> total_matches ?r = 0"
      by (simp add: search_keywords_no_match)
  qed
  have short: "length (strip text) < 50 \<longrightarrow>
                analyze_document weigh e path =
                  Inl (ValueError ''Document appears to be empty or too short'')"
    using assms(3) by (simp add: analyze_document_def)
  from run none empty short show ?thesis
    by (intro exI [of _ ?r]) simp
qed

lemma ext_txt: "lower (snd (splitext ''empty.txt'')) = ''.txt''"
  by code_simp

lemma parse_empty_txt: "parse example_env ''empty.txt'' = Inr []"
  by code_simp

theorem search_has_no_length_check_witness:
  "path_exists example_env ''empty.txt'' \<and>
   lower (snd (splitext ''empty.txt'')) \<in> set SUPPORTED_FORMATS \<and>
   parse example_env ''empty.txt'' = Inr [] \<and>
   (\<exists>r. search_document example_env ''empty.txt'' [''party''] = Inr r \<and> search_success r \<and>
        search_results r = [] \<and> total_matches r = 0) \<and>
   analyze_document exact_weigh example_env ''empty.txt'' =
     Inl (ValueError ''Document appears to be empty or too short'')"
proof -
  have ex: "path_exists example_env ''empty.txt''" by (simp add: example_env_def)
  have su: "lower (snd (splitext ''empty.txt'')) \<in> set SUPPORTED_FORMATS"
    by (simp add: ext_txt SUPPORTED_FORMATS_def)
  have st: "length (strip []) < 50" by (simp add: strip_def)
  from search_has_no_length_check [OF ex su parse_empty_txt, where kws = "[''party'']" and weigh = exact_weigh] st
  show ?thesis using ex su parse_empty_txt by auto
qed

text \<open>
  C10 as stated says that a text of fewer than 50 characters yields an empty mapping and no
  matches. A keyword that occurs in the short text is found, and the empty keyword is found
  once in the empty text.
\<close>

theorem search_short_text_counterexample:
  "path_exists example_env ''short.txt'' \<and>
   lower (snd (splitext ''short.txt'')) \<in> set SUPPORTED_FORMATS \<and>
   parse example_env ''short.txt'' = Inr ''Short'' \<and>
   length (strip ''Short'') < 50 \<and>
   search_document example_env ''short.txt'' [''short''] =
     Inr \<lparr>search_success = True, search_file_path = ''short.txt'',
          search_keywords_given = [''short''],
          search_results = [(''short'', [''**Short**''])], total_matches = 1\<rparr> \<and>
   parse example_env ''empty.txt'' = Inr [] \<and>
   search_document example_env ''empty.txt'' [[]] =
     Inr \<lparr>search_success = True, search_file_path = ''empty.txt'',
          search_keywords_given = [[]],
          search_results = [([], [''****''])], total_matches = 1\<rparr>"
  by code_simp

section \<open>The analysis of a document that is long enough\<close>

lemma strip_nonempty_has_char: "strip s \<noteq> [] \<Longrightarrow> \<exists>c\<in>set s. \<not> isspace c"
  by (auto simp: strip_def dest: set_dropWhileD)

lemma split_ws_acc_nonempty:
  "cur \<noteq> [] \<or> (\<exists>c\<in>set s. \<not> isspace c) \<Longrightarrow> split_ws_acc cur s \<noteq> []"
  by (induction s arbitrary: cur) auto

text \<open>
  C4. For an existing file with a supported extension that the parser decodes to a text of
  at least 50 characters once trimmed, \<open>analyze_document\<close> returns a record with \<open>success\<close>
  set, a positive \<open>word_count\<close> and \<open>text_length\<close> equal to the length of the decoded text.
\<close>

theorem analyze_success:
  assumes "path_exists e path"
    and "lower (snd (splitext path)) \<in> set SUPPORTED_FORMATS"
    and "parse e path = Inr text"
    and "50 \<le> length (strip text)"
  shows "\<exists>r. analyze_document weigh e path = Inr r \<and> success r \<and> 0 < word_count r \<and>
             text_length r = length text"
proof -
  from assms(4) have ne: "strip text \<noteq> []" by auto
  then have "text \<noteq> []" by (auto simp: strip_def)
  moreover have "split_ws text \<noteq> []"
    unfolding split_ws_def using strip_nonempty_has_char [OF ne] by (intro split_ws_acc_nonempty) simp
  ultimately show ?thesis
    using assms(3,4) by (simp add: analyze_document_def Let_def)
qed

lemma ext_contract: "lower (snd (splitext ''contract.txt'')) = ''.txt''"
  by code_simp

lemma parse_contract: "parse example_env ''contract.txt'' = Inr sample_text"
  by code_simp

lemma strip_sample: "length (strip sample_text) = 80"
  by code_simp

lemma split_ws_sample: "length (split_ws sample_text) = 11"
  by code_simp

theorem analyze_success_witness:
  "path_exists example_env ''contract.txt'' \<and>
   lower (snd (splitext ''contract.txt'')) \<in> set SUPPORTED_FORMATS \<and>
   parse example_env ''contract.txt'' = Inr sample_text \<and>
   50 \<le> length (strip sample_text) \<and>
   (\<exists>r. analyze_document exact_weigh example_env ''contract.txt'' = Inr r \<and> success r \<and>
        0 < word_count r \<and> text_length r = length sample_text)"
proof -
  have ex: "path_exists example_env ''contract.txt''" by (simp add: example_env_def)
  have su: "lower (snd (splitext ''contract.txt'')) \<in> set SUPPORTED_FORMATS"
    by (simp add: ext_contract SUPPORTED_FORMATS_def)
  have ln: "50 \<le> length (strip sample_text)" by (simp add: strip_sample)
  from analyze_success [OF ex su parse_contract ln, where weigh = exact_weigh]
  show ?thesis using ex su parse_contract ln by simp
qed

section \<open>Keyword search ignores letter case\<close>









section \<open>Clauses: one per line, numbered by the captured group\<close>

lemma ms_nogroups: "nogroups r \<Longrightarrow> t \<in> set (ms ic w r s) \<Longrightarrow> snd t = snd s"
proof (induction r arbitrary: s t)
  case (Seq r1 r2)
  then show ?case by (auto simp: ms.simps, metis)
qed (auto simp: ms.simps split: if_splits)

lemma nogroups_lit [simp]: "nogroups (lit k)"
  by (induction k) auto

lemma ms_Cls: "t \<in> set (ms ic w (Cls p) s) \<Longrightarrow>
   fst t = Suc (fst s) \<and> snd t = snd s \<and> fst s < length w \<and> cls_ok ic p (w ! fst s)"
  by (auto simp: ms.simps split: if_splits)

lemma ms_Many:
  assumes "t \<in> set (ms ic w (Many p) s)"
  shows "snd t = snd s \<and> fst s \<le> fst t \<and> (fst s \<le> length w \<longrightarrow> fst t \<le> length w) \<and>
         (\<forall>j. fst s \<le> j \<and> j < fst t \<longrightarrow> cls_ok ic p (w ! j))"
proof -
  let ?tw = "takeWhile (cls_ok ic p) (drop (fst s) w)"
  from assms obtain n where n: "n \<le> length ?tw" and t: "t = (fst s + n, snd s)"
    by (auto simp: ms.simps)
  have len: "length ?tw \<le> length w - fst s"
    using length_takeWhile_le [of "cls_ok ic p" "drop (fst s) w"] by simp
  have "cls_ok ic p (w ! j)" if "fst s \<le> j" "j < fst t" for j
  proof -
    from that t n have k: "j - fst s < length ?tw" by auto
    then have "?tw ! (j - fst s) \<in> set ?tw" by (rule nth_mem)
    then have "cls_ok ic p (?tw ! (j - fst s))" by (auto dest: set_takeWhileD)
    moreover have "?tw ! (j - fst s) = drop (fst s) w ! (j - fst s)"
      using k by (rule takeWhile_nth)
    moreover have "fst s + (j - fst s) < length w" using k len by linarith
    ultimately show ?thesis using that by simp
  qed
  with t n len show ?thesis by auto
qed

lemma isdigit_lower: "isdigit (lower_char c) \<Longrightarrow> isdigit c"
  by (auto simp: isdigit_def lower_char_def Let_def split: if_splits)

lemma isdigit_upper: "isdigit (upper_char c) \<Longrightarrow> isdigit c"
  by (auto simp: isdigit_def upper_char_def Let_def split: if_splits)

lemma of_char_lower_char:
  "(of_char (lower_char c) :: nat) =
     (if (65 \<le> (of_char c :: nat) \<and> (of_char c :: nat) \<le> 90) \<or>
         (192 \<le> (of_char c :: nat) \<and> (of_char c :: nat) \<le> 222 \<and> (of_char c :: nat) \<noteq> 215)
      then of_char c + 32 else of_char c)"
  by (auto simp: lower_char_def Let_def)

lemma of_char_upper_char:
  "(of_char (upper_char c) :: nat) =
     (if (97 \<le> (of_char c :: nat) \<and> (of_char c :: nat) \<le> 122) \<or>
         (224 \<le> (of_char c :: nat) \<and> (of_char c :: nat) \<le> 254 \<and> (of_char c :: nat) \<noteq> 247)
      then of_char c - 32 else of_char c)"
  by (auto simp: upper_char_def Let_def)

lemma dot_lower: "lower_char c = CHR ''.'' \<Longrightarrow> c = CHR ''.''"
proof -
  assume "lower_char c = CHR ''.''"
  then have "(of_char (lower_char c) :: nat) = of_char (CHR ''.'')" by simp
  then have "(of_char c :: nat) = of_char (CHR ''.'')"
    unfolding of_char_lower_char by (simp split: if_splits)
  then show ?thesis by (simp only: of_char_eq_iff)
qed

lemma dot_upper: "upper_char c = CHR ''.'' \<Longrightarrow> c = CHR ''.''"
proof -
  assume "upper_char c = CHR ''.''"
  then have "(of_char (upper_char c) :: nat) = of_char (CHR ''.'')" by simp
  then have "(of_char c :: nat) = of_char (CHR ''.'')"
    unfolding of_char_upper_char by (auto split: if_splits)
  then show ?thesis by (simp only: of_char_eq_iff)
qed

lemma cls_digit: "cls_ok ic digit c \<Longrightarrow> isdigit c"
  by (auto simp: digit_def dest: isdigit_lower isdigit_upper)

lemma cls_dotdigit:
  "cls_ok ic (In (\<lambda>c. c = CHR ''.'' \<or> isdigit c)) c \<Longrightarrow> isdigit c \<or> c = CHR ''.''"
  by (auto dest: isdigit_lower isdigit_upper dot_lower dot_upper)


lemma ms_SeqE:
  assumes "t \<in> set (ms ic w (Seq r1 r2) s)"
  obtains u where "u \<in> set (ms ic w r1 s)" and "t \<in> set (ms ic w r2 u)"
  using assms by (auto simp: ms.simps)

lemma ms_Seq_nogroups:
  assumes "t \<in> set (ms ic w (Seq r1 r2) s)" and "nogroups r1"
  obtains u where "snd u = snd s" and "t \<in> set (ms ic w r2 u)"
proof -
  from assms(1) obtain u where u: "u \<in> set (ms ic w r1 s)" and t: "t \<in> set (ms ic w r2 u)"
    by (rule ms_SeqE)
  from assms(2) u have "snd u = snd s" by (rule ms_nogroups)
  with t that show ?thesis by simp
qed

lemma ms_Grp:
  assumes "t \<in> set (ms ic w (Grp g r) s)"
  obtains u where "u \<in> set (ms ic w r s)" and "fst t = fst u"
    and "snd t = (g, fst s, fst u) # filter (\<lambda>e. fst e \<noteq> g) (snd u)"
  using assms by (auto simp: ms.simps)

lemma ms_digits:
  assumes "v \<in> set (ms ic w (Many1 digit) u)"
  shows "snd v = snd u \<and> fst u < fst v \<and> fst v \<le> length w \<and> isdigit (w ! fst u) \<and>
         (\<forall>j. fst u \<le> j \<and> j < fst v \<longrightarrow> isdigit (w ! j))"
proof -
  from assms obtain y where y: "y \<in> set (ms ic w (Cls digit) u)"
    and v: "v \<in> set (ms ic w (Many digit) y)"
    unfolding Many1_def by (rule ms_SeqE)
  note cy = ms_Cls [OF y] and mv = ms_Many [OF v]
  have "isdigit (w ! j)" if "fst u \<le> j" "j < fst v" for j
  proof (cases "j = fst u")
    case True
    with cy show ?thesis by (auto dest: cls_digit)
  next
    case False
    with that cy have "fst y \<le> j" by simp
    with mv that show ?thesis by (auto dest: cls_digit)
  qed
  moreover have "isdigit (w ! fst u)" using cy by (auto dest: cls_digit)
  ultimately show ?thesis using cy mv by auto
qed

lemma ms_number:
  assumes "v \<in> set (ms ic w (Seq (Many1 digit) (Many (In (\<lambda>c. c = CHR ''.'' \<or> isdigit c)))) u)"
  shows "snd v = snd u \<and> fst u < fst v \<and> fst v \<le> length w \<and> isdigit (w ! fst u) \<and>
         (\<forall>j. fst u \<le> j \<and> j < fst v \<longrightarrow> isdigit (w ! j) \<or> w ! j = CHR ''.'')"
proof -
  from assms obtain x where x: "x \<in> set (ms ic w (Many1 digit) u)"
    and v: "v \<in> set (ms ic w (Many (In (\<lambda>c. c = CHR ''.'' \<or> isdigit c))) x)"
    by (rule ms_SeqE)
  note dx = ms_digits [OF x] and mv = ms_Many [OF v]
  have "isdigit (w ! j) \<or> w ! j = CHR ''.''" if "fst u \<le> j" "j < fst v" for j
  proof (cases "j < fst x")
    case True
    with dx that show ?thesis by simp
  next
    case False
    with mv that have "cls_ok ic (In (\<lambda>c. c = CHR ''.'' \<or> isdigit c)) (w ! j)" by simp
    then show ?thesis by (rule cls_dotdigit)
  qed
  then show ?thesis using dx mv by auto
qed

lemma clause_pattern0_caps:
  assumes "t \<in> set (ms True w (clause_patterns ! 0) (i, []))"
  shows "\<exists>a b. snd t = [(1, a, b)] \<and> a < b \<and> b \<le> length w \<and> isdigit (w ! a) \<and>
           (\<forall>j. a \<le> j \<and> j < b \<longrightarrow> isdigit (w ! j) \<or> w ! j = CHR ''.'')"
proof -
  let ?A = "alts [lit ''CLAUSE'', lit ''Article'', lit ''Section'', lit ''Paragraph'']"
  let ?G = "Seq (Many1 digit) (Many (In (\<lambda>c. c = CHR ''.'' \<or> isdigit c)))"
  let ?C = "Cls (In (\<lambda>c. c = CHR '':'' \<or> isspace c))"
  have eq: "clause_patterns ! 0 =
     Seq line_start (Seq (Many space) (Seq ?A (Seq (Many1 space) (Seq (Grp 1 ?G) ?C))))"
    by (simp add: clause_patterns_def)
  from assms obtain u1 where u1: "snd u1 = []"
    and t1: "t \<in> set (ms True w (Seq (Many space) (Seq ?A (Seq (Many1 space) (Seq (Grp 1 ?G) ?C)))) u1)"
    unfolding eq by (rule ms_Seq_nogroups) (simp_all add: line_start_def)
  from t1 obtain u2 where u2: "snd u2 = []"
    and t2: "t \<in> set (ms True w (Seq ?A (Seq (Many1 space) (Seq (Grp 1 ?G) ?C))) u2)"
    by (rule ms_Seq_nogroups) (simp_all add: u1)
  from t2 obtain u3 where u3: "snd u3 = []"
    and t3: "t \<in> set (ms True w (Seq (Many1 space) (Seq (Grp 1 ?G) ?C)) u3)"
    by (rule ms_Seq_nogroups) (simp_all add: u2)
  from t3 obtain u4 where u4: "snd u4 = []"
    and t4: "t \<in> set (ms True w (Seq (Grp 1 ?G) ?C) u4)"
    by (rule ms_Seq_nogroups) (simp_all add: u3 Many1_def)
  from t4 obtain u5 where u5: "u5 \<in> set (ms True w (Grp 1 ?G) u4)"
    and t5: "t \<in> set (ms True w ?C u5)"
    by (rule ms_SeqE)
  from u5 obtain v where v: "v \<in> set (ms True w ?G u4)"
    and c5: "snd u5 = (1, fst u4, fst v) # filter (\<lambda>e. fst e \<noteq> 1) (snd v)"
    by (rule ms_Grp)
  note nv = ms_number [OF v]
  from c5 nv u4 have "snd u5 = [(1, fst u4, fst v)]" by simp
  moreover have "snd t = snd u5" using ms_Cls [OF t5] by simp
  ultimately show ?thesis using nv by auto
qed

lemma clause_pattern1_caps:
  assumes "t \<in> set (ms True w (clause_patterns ! 1) (i, []))"
  shows "\<exists>a b. snd t = [(1, a, b)] \<and> a < b \<and> b \<le> length w \<and> isdigit (w ! a) \<and>
           (\<forall>j. a \<le> j \<and> j < b \<longrightarrow> isdigit (w ! j) \<or> w ! j = CHR ''.'')"
proof -
  let ?R = "Seq (Lit (CHR ''.'')) (Seq (Many1 space) (Cls (In (in_range (CHR ''A'') (CHR ''Z'')))))"
  have eq: "clause_patterns ! 1 =
     Seq line_start (Seq (Many space) (Seq (Grp 1 (Many1 digit)) ?R))"
    by (simp add: clause_patterns_def)
  from assms obtain u1 where u1: "snd u1 = []"
    and t1: "t \<in> set (ms True w (Seq (Many space) (Seq (Grp 1 (Many1 digit)) ?R)) u1)"
    unfolding eq by (rule ms_Seq_nogroups) (simp_all add: line_start_def)
  from t1 obtain u2 where u2: "snd u2 = []"
    and t2: "t \<in> set (ms True w (Seq (Grp 1 (Many1 digit)) ?R) u2)"
    by (rule ms_Seq_nogroups) (simp_all add: u1)
  from t2 obtain u3 where u3: "u3 \<in> set (ms True w (Grp 1 (Many1 digit)) u2)"
    and t3: "t \<in> set (ms True w ?R u3)"
    by (rule ms_SeqE)
  from u3 obtain v where v: "v \<in> set (ms True w (Many1 digit) u2)"
    and c3: "snd u3 = (1, fst u2, fst v) # filter (\<lambda>e. fst e \<noteq> 1) (snd v)"
    by (rule ms_Grp)
  note nv = ms_digits [OF v]
  from c3 nv u2 have "snd u3 = [(1, fst u2, fst v)]" by simp
  moreover have "snd t = snd u3"
    using t3 by (rule ms_nogroups [rotated]) (simp add: Many1_def)
  ultimately show ?thesis using nv by auto
qed

lemma clause_patterns_caps:
  assumes "p \<in> set clause_patterns" and "t \<in> set (ms True w p (i, []))"
  shows "\<exists>a b. snd t = [(1, a, b)] \<and> a < b \<and> b \<le> length w \<and> isdigit (w ! a) \<and>
           (\<forall>j. a \<le> j \<and> j < b \<longrightarrow> isdigit (w ! j) \<or> w ! j = CHR ''.'')"
proof -
  have "length clause_patterns = 2" by (simp add: clause_patterns_def)
  with assms(1) have "p = clause_patterns ! 0 \<or> p = clause_patterns ! 1"
    by (auto simp: in_set_conv_nth less_Suc_eq numeral_2_eq_2)
  with assms(2) show ?thesis
    using clause_pattern0_caps clause_pattern1_caps by blast
qed

lemma match_at_Some:
  assumes "match_at ic r w i adv = Some m"
  obtains t where "t \<in> set (ms ic w r (i, []))" and "m_caps m = snd t" and "m_string m = w"
    and "m_start m = i" and "m_end m = fst t"
proof -
  from assms obtain t ts where f: "filter (\<lambda>t. if adv then i < fst t else True) (ms ic w r (i, [])) = t # ts"
    and m: "m = \<lparr>m_start = i, m_end = fst t, m_caps = snd t, m_string = w\<rparr>"
    by (auto simp: match_at_def split: list.splits)
  from f have "t \<in> set (filter (\<lambda>t. if adv then i < fst t else True) (ms ic w r (i, [])))"
    by simp
  then have "t \<in> set (ms ic w r (i, []))" by simp
  with m that show ?thesis by simp
qed

lemma re_search_Some:
  assumes "re_search ic r w = Some m"
  obtains i where "match_at ic r w i False = Some m"
  using assms by (auto simp: re_search_def split: option.splits)

lemma set_slice: "x \<in> set (slice w a b) \<Longrightarrow> \<exists>j. a \<le> j \<and> j < b \<and> j < length w \<and> x = w ! j"
proof -
  assume "x \<in> set (slice w a b)"
  then obtain k where k: "k < length (slice w a b)" and x: "x = slice w a b ! k"
    by (auto simp: in_set_conv_nth)
  from k have "k < b - a" "a + k < length w" by (auto simp: slice_def)
  with x have "x = w ! (a + k)" by (simp add: slice_def)
  with \<open>k < b - a\<close> \<open>a + k < length w\<close> show ?thesis by (intro exI [of _ "a + k"]) auto
qed

lemma clause_match_number:
  assumes "p \<in> set clause_patterns" and "re_search True p line = Some m"
  shows "lastindex m = Some 1 \<and>
         (\<exists>d. m_group m 1 = Some d \<and> d \<noteq> [] \<and> isdigit (hd d) \<and>
              (\<forall>x\<in>set d. isdigit x \<or> x = CHR ''.''))"
proof -
  from assms(2) obtain i where "match_at True p line i False = Some m" by (rule re_search_Some)
  then obtain t where t: "t \<in> set (ms True line p (i, []))" and c: "m_caps m = snd t"
    and s: "m_string m = line"
    by (rule match_at_Some)
  from clause_patterns_caps [OF assms(1) t] obtain a b where
    ab: "snd t = [(1, a, b)]" "a < b" "b \<le> length line" "isdigit (line ! a)"
    and all: "\<forall>j. a \<le> j \<and> j < b \<longrightarrow> isdigit (line ! j) \<or> line ! j = CHR ''.''"
    by blast
  have g: "m_group m 1 = Some (slice line a b)"
    by (simp add: m_group_def c s ab)
  have ne: "slice line a b \<noteq> []" using ab by (auto simp: slice_def)
  have hd: "hd (slice line a b) = line ! a"
    using ab by (simp add: slice_def hd_take hd_drop_conv_nth)
  have "\<forall>x\<in>set (slice line a b). isdigit x \<or> x = CHR ''.''"
    using all by (auto dest!: set_slice)
  with g ne hd ab show ?thesis by (simp add: lastindex_def c)
qed

lemma clause_pattern_loop_find:
  "clause_pattern_loop lines i line ps found =
     (case List.find (\<lambda>p. re_search True p line \<noteq> None) ps of
        None \<Rightarrow> found
      | Some p \<Rightarrow> found @ [make_clause lines i found (the (re_search True p line))])"
  by (induction ps) (auto split: option.splits)

lemma clause_pattern_loop_length:
  "length (clause_pattern_loop lines i line ps found) \<le> Suc (length found)"
  by (induction ps) (auto split: option.splits)

lemma clause_fold_length:
  "length (foldl (\<lambda>cl (i, line). clause_pattern_loop lines i line ps cl) acc xs)
     \<le> length acc + length xs"
proof (induction xs arbitrary: acc)
  case Nil
  then show ?case by simp
next
  case (Cons x xs)
  obtain i line where x: "x = (i, line)" by (cases x)
  have "length (foldl (\<lambda>cl (i, line). clause_pattern_loop lines i line ps cl)
                  (clause_pattern_loop lines i line ps acc) xs)
          \<le> length (clause_pattern_loop lines i line ps acc) + length xs"
    by (rule Cons.IH)
  also have "\<dots> \<le> Suc (length acc) + length xs"
    using clause_pattern_loop_length [of lines i line ps acc] by simp
  finally show ?case by (simp add: x)
qed

text \<open>
  C7. \<open>extract_clauses\<close> returns at most one clause per line of the text. On each line the
  patterns are tried in the order of \<open>clause_patterns\<close>, the labelled markers before the
  bare numbers; the loop appends one clause for the first pattern found on the line and
  leaves, and appends nothing when no pattern is found.
\<close>

theorem one_clause_per_line:
  "length (extract_clauses text) \<le> length (split_on (CHR 0x0A) text) \<and>
   length (clause_pattern_loop lines i line clause_patterns found) \<le> Suc (length found) \<and>
   clause_pattern_loop lines i line clause_patterns found =
     (case List.find (\<lambda>p. re_search True p line \<noteq> None) clause_patterns of
        None \<Rightarrow> found
      | Some p \<Rightarrow> found @ [make_clause lines i found (the (re_search True p line))])"
proof (intro conjI)
  show "length (extract_clauses text) \<le> length (split_on (CHR 0x0A) text)"
    unfolding extract_clauses_def Let_def
    using clause_fold_length [of "split_on (CHR 0x0A) text" clause_patterns "[]"
        "enumerate 0 (split_on (CHR 0x0A) text)"]
    by simp
  show "length (clause_pattern_loop lines i line clause_patterns found) \<le> Suc (length found)"
    by (rule clause_pattern_loop_length)
  show "clause_pattern_loop lines i line clause_patterns found =
     (case List.find (\<lambda>p. re_search True p line \<noteq> None) clause_patterns of
        None \<Rightarrow> found
      | Some p \<Rightarrow> found @ [make_clause lines i found (the (re_search True p line))])"
    by (rule clause_pattern_loop_find)
qed


theorem one_clause_per_line_witness:
  "extract_clauses sample_clauses =
     [\<lparr>clause_number = Some ''12.3'',
       clause_text = ''Section 12.3: Fees 2. Terms apply no marker here''\<rparr>,
      \<lparr>clause_number = Some ''2'', clause_text = ''2. Terms apply no marker here''\<rparr>] \<and>
   length (extract_clauses sample_clauses) \<le> length (split_on (CHR 0x0A) sample_clauses) \<and>
   clause_pattern_loop [''2. Terms apply''] 0 ''2. Terms apply'' clause_patterns [] =
     [\<lparr>clause_number = Some ''2'', clause_text = ''2. Terms apply''\<rparr>]"
proof -
  have ev: "(case List.find (\<lambda>p. re_search True p ''2. Terms apply'' \<noteq> None) clause_patterns of
               None \<Rightarrow> []
             | Some p \<Rightarrow> [] @ [make_clause [''2. Terms apply''] 0 []
                                   (the (re_search True p ''2. Terms apply''))]) =
            [\<lparr>clause_number = Some ''2'', clause_text = ''2. Terms apply''\<rparr>]"
    by code_simp
  have cl: "extract_clauses sample_clauses =
     [\<lparr>clause_number = Some ''12.3'',
       clause_text = ''Section 12.3: Fees 2. Terms apply no marker here''\<rparr>,
      \<lparr>clause_number = Some ''2'', clause_text = ''2. Terms apply no marker here''\<rparr>]"
    by code_simp
  from one_clause_per_line [of sample_clauses "[''2. Terms apply'']" 0 "''2. Terms apply''" "[]"]
  show ?thesis by (simp only: ev cl simp_thms)
qed

lemma clause_step_inv:
  assumes inv: "\<forall>c\<in>set found. Q c"
    and new: "\<And>p m. p \<in> set ps \<Longrightarrow> re_search True p line = Some m \<Longrightarrow>
                Q (make_clause lines i found m)"
  shows "\<forall>c\<in>set (clause_pattern_loop lines i line ps found). Q c"
  using new
proof (induction ps)
  case Nil
  with inv show ?case by simp
next
  case (Cons p ps)
  show ?case
  proof (cases "re_search True p line")
    case None
    have "\<forall>c\<in>set (clause_pattern_loop lines i line ps found). Q c"
      by (rule Cons.IH) (rule Cons.prems, simp_all)
    with None show ?thesis by simp
  next
    case (Some m)
    with Cons.prems [of p m] inv show ?thesis by simp
  qed
qed

lemma clause_fold_inv:
  assumes "\<forall>c\<in>set acc. Q c"
    and "\<And>i line p m found. (i, line) \<in> set xs \<Longrightarrow> p \<in> set ps \<Longrightarrow>
           re_search True p line = Some m \<Longrightarrow> Q (make_clause lines i found m)"
  shows "\<forall>c\<in>set (foldl (\<lambda>cl (i, line). clause_pattern_loop lines i line ps cl) acc xs). Q c"
  using assms
proof (induction xs arbitrary: acc)
  case Nil
  then show ?case by simp
next
  case (Cons x xs)
  obtain i line where x: "x = (i, line)" by (cases x)
  have "\<forall>c\<in>set (clause_pattern_loop lines i line ps acc). Q c"
    using Cons.prems(1)
  proof (rule clause_step_inv)
    fix p m
    assume "p \<in> set ps" "re_search True p line = Some m"
    then show "Q (make_clause lines i acc m)"
      using Cons.prems(2) [of i line p m acc] by (simp add: x)
  qed
  then have "\<forall>c\<in>set (foldl (\<lambda>cl (i, line). clause_pattern_loop lines i line ps cl)
                        (clause_pattern_loop lines i line ps acc) xs). Q c"
  proof (rule Cons.IH)
    fix i' line' p m found
    assume "(i', line') \<in> set xs" "p \<in> set ps" "re_search True p line' = Some m"
    then show "Q (make_clause lines i' found m)"
      using Cons.prems(2) [of i' line' p m found] by simp
  qed
  then show ?case by (simp add: x)
qed

text \<open>
  C9. Both clause patterns contain the capturing group 1, and no match is possible without
  it: a match \<open>m\<close> of either pattern on a line has \<open>lastindex\<close> 1, so that \<open>make_clause\<close>
  takes the number from \<open>m.group(1)\<close> and never from the count of the clauses found so
  far. Every clause that \<open>extract_clauses\<close> returns has as its number the text captured on
  one of the lines: a non-empty string that starts with a digit and consists of digits and
  dots.
\<close>

theorem clause_number_is_captured:
  "(p \<in> set clause_patterns \<and> re_search True p line = Some m \<longrightarrow>
      lastindex m = Some 1 \<and> clause_number (make_clause lines i found m) = m_group m 1) \<and>
   (c \<in> set (extract_clauses text) \<longrightarrow>
      (\<exists>line p m d. line \<in> set (split_on (CHR 0x0A) text) \<and> p \<in> set clause_patterns \<and>
         re_search True p line = Some m \<and> lastindex m = Some 1 \<and> m_group m 1 = Some d \<and>
         clause_number c = Some d \<and> d \<noteq> [] \<and> isdigit (hd d) \<and>
         (\<forall>x\<in>set d. isdigit x \<or> x = CHR ''.'')))"
proof (rule conjI; rule impI)
  assume "p \<in> set clause_patterns \<and> re_search True p line = Some m"
  then have "lastindex m = Some 1" using clause_match_number by blast
  then show "lastindex m = Some 1 \<and> clause_number (make_clause lines i found m) = m_group m 1"
    by (simp add: make_clause_def Let_def)
next
  let ?lines = "split_on (CHR 0x0A) text"
  let ?Q = "\<lambda>c. \<exists>line p m d. line \<in> set ?lines \<and> p \<in> set clause_patterns \<and>
         re_search True p line = Some m \<and> lastindex m = Some 1 \<and> m_group m 1 = Some d \<and>
         clause_number c = Some d \<and> d \<noteq> [] \<and> isdigit (hd d) \<and>
         (\<forall>x\<in>set d. isdigit x \<or> x = CHR ''.'')"
  have "\<forall>c\<in>set (foldl (\<lambda>cl (i, line). clause_pattern_loop ?lines i line clause_patterns cl)
                    [] (enumerate 0 ?lines)). ?Q c"
  proof (rule clause_fold_inv)
    show "\<forall>c\<in>set []. ?Q c" by simp
  next
    fix i line p m found
    assume mem: "(i, line) \<in> set (enumerate 0 ?lines)" and p: "p \<in> set clause_patterns"
      and m: "re_search True p line = Some m"
    from mem have line: "line \<in> set ?lines" by (auto simp: in_set_enumerate_eq)
    from clause_match_number [OF p m] obtain d where
      d: "lastindex m = Some 1" "m_group m 1 = Some d" "d \<noteq> []" "isdigit (hd d)"
        "\<forall>x\<in>set d. isdigit x \<or> x = CHR ''.''"
      by blast
    then have "clause_number (make_clause ?lines i found m) = Some d"
      by (simp add: make_clause_def Let_def)
    with line p m d show "?Q (make_clause ?lines i found m)" by blast
  qed
  moreover assume "c \<in> set (extract_clauses text)"
  ultimately show "?Q c" by (simp add: extract_clauses_def Let_def)
qed

lemma sample_clause_match:
  "re_search True (clause_patterns ! 0) ''Section 12.3: Fees'' =
     Some \<lparr>m_start = 0, m_end = 13, m_caps = [(1, 8, 12)], m_string = ''Section 12.3: Fees''\<rparr>"
  by code_simp

lemma sample_clause_member:
  "\<lparr>clause_number = Some ''12.3'',
    clause_text = ''Section 12.3: Fees 2. Terms apply no marker here''\<rparr>
     \<in> set (extract_clauses sample_clauses)"
  by code_simp

theorem clause_number_is_captured_witness:
  "clause_patterns ! 0 \<in> set clause_patterns \<and>
   re_search True (clause_patterns ! 0) ''Section 12.3: Fees'' =
     Some \<lparr>m_start = 0, m_end = 13, m_caps = [(1, 8, 12)], m_string = ''Section 12.3: Fees''\<rparr> \<and>
   lastindex \<lparr>m_start = 0, m_end = 13, m_caps = [(1, 8, 12)], m_string = ''Section 12.3: Fees''\<rparr>
     = Some 1 \<and>
   \<lparr>clause_number = Some ''12.3'',
    clause_text = ''Section 12.3: Fees 2. Terms apply no marker here''\<rparr>
     \<in> set (extract_clauses sample_clauses) \<and>
   (\<exists>line p m d. line \<in> set (split_on (CHR 0x0A) sample_clauses) \<and> p \<in> set clause_patterns \<and>
      re_search True p line = Some m \<and> lastindex m = Some 1 \<and> m_group m 1 = Some d \<and>
      Some ''12.3'' = Some d \<and> d \<noteq> [] \<and> isdigit (hd d) \<and>
      (\<forall>x\<in>set d. isdigit x \<or> x = CHR ''.''))"
proof -
  have p: "clause_patterns ! 0 \<in> set clause_patterns"
    by (simp add: clause_patterns_def)
  from clause_number_is_captured
    [of "clause_patterns ! 0" "''Section 12.3: Fees''"
      "\<lparr>m_start = 0, m_end = 13, m_caps = [(1, 8, 12)], m_string = ''Section 12.3: Fees''\<rparr>"
      "[]" 0 "[]"
      "\<lparr>clause_number = Some ''12.3'',
        clause_text = ''Section 12.3: Fees 2. Terms apply no marker here''\<rparr>"
      sample_clauses]
    p sample_clause_match sample_clause_member
  show ?thesis by simp
qed

section \<open>The sentences of a summary\<close>





















end
